theory Spec2Isabelle
  imports Complex_Main
begin

section \<open>Images as Pillow presents them to proxify.py\<close>

text \<open>
  An RGBA pixel is the 4-tuple Pillow's pixel access returns; the code reads the first
  three entries (\<^verbatim>\<open>pixel_tuple[:3]\<close>). An image has a width, a height and a pixel at every
  position inside them; positions outside are never read through \<open>getpixel\<close>.
\<close>

type_synonym pixel = "int \<times> int \<times> int \<times> int"

record image =
  width :: nat
  height :: nat
  pixels :: "nat \<Rightarrow> nat \<Rightarrow> pixel"

datatype error = IndexError | ValueError

text \<open>
  \<^verbatim>\<open>r > threshold or g > threshold or b > threshold\<close>: the one test for a content pixel,
  written out at lines 94, 122, 135, 168 and 185.
\<close>

fun is_content :: "pixel \<Rightarrow> int \<Rightarrow> bool" where
  "is_content (r, g, b, a) threshold = (r > threshold \<or> g > threshold \<or> b > threshold)"

text \<open>
  \<^verbatim>\<open>pixels[x, y]\<close> on a loaded image: a negative index counts from the far edge, and an
  index that is still outside the image raises IndexError.
\<close>

definition getpixel :: "image \<Rightarrow> int \<Rightarrow> int \<Rightarrow> error + pixel" where
  "getpixel img x y =
     (let x' = (if x < 0 then int (width img) + x else x);
          y' = (if y < 0 then int (height img) + y else y)
      in if 0 \<le> x' \<and> x' < int (width img) \<and> 0 \<le> y' \<and> y' < int (height img)
         then Inr (pixels img (nat x') (nat y'))
         else Inl IndexError)"

text \<open>
  \<^verbatim>\<open>image.crop((x0, y0, x1, y1))\<close>: a box whose right or lower coordinate is below its left
  or upper one raises ValueError; the part of the box outside the image is filled with
  transparent black.
\<close>

definition crop :: "image \<Rightarrow> int \<times> int \<times> int \<times> int \<Rightarrow> error + image" where
  "crop img box =
     (case box of (x0, y0, x1, y1) \<Rightarrow>
        if x1 < x0 \<or> y1 < y0 then Inl ValueError
        else Inr \<lparr> width = nat (x1 - x0), height = nat (y1 - y0),
                   pixels = (\<lambda>x y.
                     let sx = int x + x0; sy = int y + y0
                     in if 0 \<le> sx \<and> sx < int (width img) \<and> 0 \<le> sy \<and> sy < int (height img)
                        then pixels img (nat sx) (nat sy)
                        else (0, 0, 0, 0)) \<rparr>)"

section \<open>Border Solidity Checker: \<^verbatim>\<open>check_strip_for_solid_lr_border\<close> (lines 141-193)\<close>

text \<open>
  The inner loop \<^verbatim>\<open>for y_coord in range(strip_h)\<close> of one column: it stops with the flag
  cleared at the first content pixel.
\<close>

fun column_is_solid :: "image \<Rightarrow> int \<Rightarrow> int \<Rightarrow> nat list \<Rightarrow> error + bool" where
  "column_is_solid strip threshold x [] = Inr True"
| "column_is_solid strip threshold x (y # ys) =
     (case getpixel strip x (int y) of
        Inl e \<Rightarrow> Inl e
      | Inr p \<Rightarrow> if is_content p threshold then Inr False
                 else column_is_solid strip threshold x ys)"

text \<open>
  The outer loop over the columns \<^verbatim>\<open>x_coord\<close>: it stops as soon as a column has cleared
  the flag.
\<close>

fun columns_are_solid :: "image \<Rightarrow> int \<Rightarrow> int list \<Rightarrow> error + bool" where
  "columns_are_solid strip threshold [] = Inr True"
| "columns_are_solid strip threshold (x # xs) =
     (case column_is_solid strip threshold x [0..<height strip] of
        Inl e \<Rightarrow> Inl e
      | Inr solid \<Rightarrow> if \<not> solid then Inr False
                     else columns_are_solid strip threshold xs)"

text \<open>
  A Pillow image object is always truthy, so \<^verbatim>\<open>not strip_image\<close> is false; the strip is a
  crop of an RGBA image, so no mode conversion happens.
\<close>

definition check_strip_for_solid_lr_border :: "image \<Rightarrow> int \<Rightarrow> int \<Rightarrow> error + bool" where
  "check_strip_for_solid_lr_border strip_image check_width_px threshold =
     (if height strip_image = 0 \<or> int (width strip_image) < 2 * check_width_px then Inr False
      else
        let strip_w = int (width strip_image) in
        case (if check_width_px > 0
              then columns_are_solid strip_image threshold [0 .. check_width_px - 1]
              else Inr False) of
          Inl e \<Rightarrow> Inl e
        | Inr left_border_is_solid \<Rightarrow>
            if \<not> left_border_is_solid then Inr False
            else
              case (if check_width_px > 0
                    then columns_are_solid strip_image threshold
                           [strip_w - check_width_px .. strip_w - 1]
                    else Inr False) of
                Inl e \<Rightarrow> Inl e
              | Inr right_border_is_solid \<Rightarrow>
                  Inr (left_border_is_solid \<and> right_border_is_solid))"

text \<open>
  A strip of 6 by 2 pixels: two dark columns on each side of two white ones.
\<close>

definition framed_strip :: image where
  "framed_strip =
     \<lparr> width = 6, height = 2,
       pixels = (\<lambda>x y. if 2 \<le> x \<and> x < 4 then (255, 255, 255, 255) else (0, 0, 0, 255)) \<rparr>"

subsection \<open>What the two loops compute\<close>

lemma getpixel_inside:
  "0 \<le> x \<Longrightarrow> x < int (width img) \<Longrightarrow> 0 \<le> y \<Longrightarrow> y < int (height img) \<Longrightarrow>
   getpixel img x y = Inr (pixels img (nat x) (nat y))"
  by (simp add: getpixel_def)

lemma column_is_solid_inside:
  assumes "0 \<le> x" "x < int (width s)" "\<forall>y \<in> set ys. y < height s"
  shows "column_is_solid s th x ys = Inr (\<forall>y \<in> set ys. \<not> is_content (pixels s (nat x) y) th)"
  using assms by (induction ys) (simp_all add: getpixel_inside)

lemma columns_are_solid_inside:
  assumes "\<forall>x \<in> set xs. 0 \<le> x \<and> x < int (width s)"
  shows "columns_are_solid s th xs =
         Inr (\<forall>x \<in> set xs. \<forall>y < height s. \<not> is_content (pixels s (nat x) y) th)"
  using assms by (induction xs) (auto simp: column_is_solid_inside)

lemma check_strip_char:
  "check_strip_for_solid_lr_border s w th =
   Inr (height s \<noteq> 0 \<and> 2 * w \<le> int (width s) \<and> 0 < w \<and>
        (\<forall>x y. y < height s \<and> (int x < w \<or> (int (width s) - w \<le> int x \<and> x < width s))
           \<longrightarrow> \<not> is_content (pixels s x y) th))"
proof (cases "height s = 0 \<or> int (width s) < 2 * w \<or> w \<le> 0")
  case True
  then show ?thesis
    by (auto simp: check_strip_for_solid_lr_border_def)
next
  case False
  then have w: "0 < w" "2 * w \<le> int (width s)" and h: "height s \<noteq> 0" by auto
  have L: "columns_are_solid s th [0 .. w - 1] =
           Inr (\<forall>x \<in> set [0 .. w - 1]. \<forall>y < height s. \<not> is_content (pixels s (nat x) y) th)"
    using w by (intro columns_are_solid_inside) auto
  have R: "columns_are_solid s th [int (width s) - w .. int (width s) - 1] =
           Inr (\<forall>x \<in> set [int (width s) - w .. int (width s) - 1].
                  \<forall>y < height s. \<not> is_content (pixels s (nat x) y) th)"
    using w by (intro columns_are_solid_inside) auto
  have Lq: "(\<forall>x \<in> set [0 .. w - 1]. \<forall>y < height s. \<not> is_content (pixels s (nat x) y) th)
            \<longleftrightarrow> (\<forall>x y. y < height s \<and> int x < w \<longrightarrow> \<not> is_content (pixels s x y) th)"
  proof
    assume a: "\<forall>x \<in> set [0 .. w - 1]. \<forall>y < height s. \<not> is_content (pixels s (nat x) y) th"
    show "\<forall>x y. y < height s \<and> int x < w \<longrightarrow> \<not> is_content (pixels s x y) th"
    proof (intro allI impI)
      fix x y assume "y < height s \<and> int x < w"
      then have "int x \<in> set [0 .. w - 1]" "y < height s" by auto
      with a have "\<not> is_content (pixels s (nat (int x)) y) th" by blast
      then show "\<not> is_content (pixels s x y) th" by simp
    qed
  next
    assume a: "\<forall>x y. y < height s \<and> int x < w \<longrightarrow> \<not> is_content (pixels s x y) th"
    show "\<forall>x \<in> set [0 .. w - 1]. \<forall>y < height s. \<not> is_content (pixels s (nat x) y) th"
      using a by auto
  qed
  have Rq: "(\<forall>x \<in> set [int (width s) - w .. int (width s) - 1].
                \<forall>y < height s. \<not> is_content (pixels s (nat x) y) th)
            \<longleftrightarrow> (\<forall>x y. y < height s \<and> int (width s) - w \<le> int x \<and> x < width s
                   \<longrightarrow> \<not> is_content (pixels s x y) th)"
  proof
    assume a: "\<forall>x \<in> set [int (width s) - w .. int (width s) - 1].
                \<forall>y < height s. \<not> is_content (pixels s (nat x) y) th"
    show "\<forall>x y. y < height s \<and> int (width s) - w \<le> int x \<and> x < width s
            \<longrightarrow> \<not> is_content (pixels s x y) th"
    proof (intro allI impI)
      fix x y assume "y < height s \<and> int (width s) - w \<le> int x \<and> x < width s"
      then have "int x \<in> set [int (width s) - w .. int (width s) - 1]" "y < height s" by auto
      with a have "\<not> is_content (pixels s (nat (int x)) y) th" by blast
      then show "\<not> is_content (pixels s x y) th" by simp
    qed
  next
    assume a: "\<forall>x y. y < height s \<and> int (width s) - w \<le> int x \<and> x < width s
                 \<longrightarrow> \<not> is_content (pixels s x y) th"
    show "\<forall>x \<in> set [int (width s) - w .. int (width s) - 1].
            \<forall>y < height s. \<not> is_content (pixels s (nat x) y) th"
    proof (intro ballI allI impI)
      fix x y assume "x \<in> set [int (width s) - w .. int (width s) - 1]" "y < height s"
      then have "y < height s \<and> int (width s) - w \<le> int (nat x) \<and> nat x < width s"
        using w by auto
      with a show "\<not> is_content (pixels s (nat x) y) th" by blast
    qed
  qed
  have "check_strip_for_solid_lr_border s w th =
        Inr ((\<forall>x \<in> set [0 .. w - 1]. \<forall>y < height s. \<not> is_content (pixels s (nat x) y) th) \<and>
             (\<forall>x \<in> set [int (width s) - w .. int (width s) - 1].
                \<forall>y < height s. \<not> is_content (pixels s (nat x) y) th))"
    using w h unfolding check_strip_for_solid_lr_border_def Let_def L R by auto
  also have "\<dots> = Inr (height s \<noteq> 0 \<and> 2 * w \<le> int (width s) \<and> 0 < w \<and>
        (\<forall>x y. y < height s \<and> (int x < w \<or> (int (width s) - w \<le> int x \<and> x < width s))
           \<longrightarrow> \<not> is_content (pixels s x y) th))"
    unfolding Lq Rq using w h by auto
  finally show ?thesis .
qed


text \<open>
  C9. For every strip, threshold and edge width, the check raises nothing and answers false
  when the strip has zero height, is narrower than twice the edge width, or the edge width is
  not positive; in every other case it answers true exactly when every pixel of the leftmost
  and of the rightmost \<open>edge_width\<close> columns, over the full height of the strip, has its
  three colour channels at or below the threshold.
\<close>

theorem check_strip_for_solid_lr_border_iff:
  "check_strip_for_solid_lr_border strip edge_width threshold =
   Inr (height strip \<noteq> 0 \<and> 2 * edge_width \<le> int (width strip) \<and> 0 < edge_width \<and>
        (\<forall>x y. y < height strip \<and>
                (int x < edge_width \<or>
                 (int (width strip) - edge_width \<le> int x \<and> x < width strip))
           \<longrightarrow> \<not> is_content (pixels strip x y) threshold))"
  by (rule check_strip_char)

theorem check_strip_for_solid_lr_border_iff_witness:
  "check_strip_for_solid_lr_border framed_strip 2 50 = Inr True"
  using check_strip_for_solid_lr_border_iff [of framed_strip 2 50]
  by (simp add: framed_strip_def)

text \<open>
  C8. With the strip and the threshold fixed, the check is monotone in the edge width: for
  \<open>0 < w1 \<le> w2\<close> and a strip at least \<open>2 * w2\<close> wide, a strip that passes at \<open>w2\<close> passes
  at \<open>w1\<close>.
\<close>

theorem check_strip_for_solid_lr_border_mono:
  assumes "0 < w1" "w1 \<le> w2" "2 * w2 \<le> int (width strip)"
    and "check_strip_for_solid_lr_border strip w2 threshold = Inr True"
  shows "check_strip_for_solid_lr_border strip w1 threshold = Inr True"
proof -
  from assms(4) have h: "height strip \<noteq> 0"
    and a: "\<forall>x y. y < height strip \<and>
                (int x < w2 \<or> (int (width strip) - w2 \<le> int x \<and> x < width strip))
           \<longrightarrow> \<not> is_content (pixels strip x y) threshold"
    unfolding check_strip_char by simp_all
  have "\<forall>x y. y < height strip \<and>
                (int x < w1 \<or> (int (width strip) - w1 \<le> int x \<and> x < width strip))
           \<longrightarrow> \<not> is_content (pixels strip x y) threshold"
  proof (intro allI impI)
    fix x y
    assume "y < height strip \<and>
            (int x < w1 \<or> (int (width strip) - w1 \<le> int x \<and> x < width strip))"
    with assms(2) have "y < height strip \<and>
            (int x < w2 \<or> (int (width strip) - w2 \<le> int x \<and> x < width strip))"
      by auto
    with a show "\<not> is_content (pixels strip x y) threshold" by blast
  qed
  with h assms(1,2,3) show ?thesis unfolding check_strip_char by simp
qed

theorem check_strip_for_solid_lr_border_mono_witness:
  "check_strip_for_solid_lr_border framed_strip 2 50 = Inr True \<and>
   check_strip_for_solid_lr_border framed_strip 1 50 = Inr True"
proof -
  have w2: "check_strip_for_solid_lr_border framed_strip 2 50 = Inr True"
    by code_simp
  have wide: "2 * 2 \<le> int (width framed_strip)"
    by (simp add: framed_strip_def)
  have "check_strip_for_solid_lr_border framed_strip 1 50 = Inr True"
    by (rule check_strip_for_solid_lr_border_mono [OF _ _ wide w2]) simp_all
  with w2 show ?thesis by simp
qed

section \<open>Frame Classifier: \<^verbatim>\<open>determine_card_type\<close> (lines 195-228)\<close>

datatype card_type = standard | extended_art | borderless

text \<open>
  \<^verbatim>\<open>max(1, edge_check_pixel_width // 2 if edge_check_pixel_width > 0 else 1)\<close>.
\<close>

definition min_zone_height :: "int \<Rightarrow> int" where
  "min_zone_height edge_check_pixel_width =
     max 1 (if edge_check_pixel_width > 0 then edge_check_pixel_width div 2 else 1)"

text \<open>
  The crop boxes of the two zones. The code truncates a float product: \<^verbatim>\<open>int(height * 0.05)\<close>,
  \<^verbatim>\<open>int(height * 0.50)\<close> and \<^verbatim>\<open>int(height * 0.60)\<close>. For a height an image can have these
  are \<open>height div 20\<close>, \<open>height div 2\<close> and \<open>(3 * height) div 5\<close>: the double nearest to
  0.05 lies above 1/20 and the one nearest to 0.6 below 3/5, each by less than half a unit
  in the last place, so the rounded product of a multiple of 20 (of 5) is the exact
  quotient, and no other height comes within 1/20 of an integer.
\<close>

definition top_zone_box :: "image \<Rightarrow> int \<Rightarrow> int \<times> int \<times> int \<times> int" where
  "top_zone_box img edge_check_pixel_width =
     (let top_zone_actual_height =
            max (min_zone_height edge_check_pixel_width) (int (height img) div 20)
      in (0, 0, int (width img), top_zone_actual_height))"

definition middle_zone_box :: "image \<Rightarrow> int \<Rightarrow> int \<times> int \<times> int \<times> int" where
  "middle_zone_box img edge_check_pixel_width =
     (let h = int (height img);
          min_zone_height = min_zone_height edge_check_pixel_width;
          middle_zone_top_y = h div 2;
          middle_zone_bottom_y = (3 * h) div 5;
          middle_zone_calculated_height = middle_zone_bottom_y - middle_zone_top_y;
          middle_zone_actual_height = max min_zone_height middle_zone_calculated_height;
          middle_zone_top_y =
            (if middle_zone_actual_height = min_zone_height
                \<and> middle_zone_calculated_height < min_zone_height
             then (if middle_zone_top_y + middle_zone_actual_height > h
                   then max 0 (h - middle_zone_actual_height)
                   else middle_zone_top_y)
             else middle_zone_top_y)
      in (0, middle_zone_top_y, int (width img), middle_zone_top_y + middle_zone_actual_height))"

definition determine_card_type :: "image \<Rightarrow> int \<Rightarrow> int \<Rightarrow> error + card_type" where
  "determine_card_type img threshold edge_check_pixel_width =
     (if height img < 20 then Inr borderless
      else
        case crop img (top_zone_box img edge_check_pixel_width) of
          Inl e \<Rightarrow> Inl e
        | Inr top_zone_img \<Rightarrow>
        case crop img (middle_zone_box img edge_check_pixel_width) of
          Inl e \<Rightarrow> Inl e
        | Inr middle_zone_img \<Rightarrow>
        case check_strip_for_solid_lr_border top_zone_img edge_check_pixel_width threshold of
          Inl e \<Rightarrow> Inl e
        | Inr top_has_lr_border \<Rightarrow>
        case check_strip_for_solid_lr_border middle_zone_img edge_check_pixel_width threshold of
          Inl e \<Rightarrow> Inl e
        | Inr middle_has_lr_border \<Rightarrow>
            if top_has_lr_border \<and> middle_has_lr_border then Inr standard
            else if top_has_lr_border \<and> \<not> middle_has_lr_border then Inr extended_art
            else Inr borderless)"

text \<open>
  A card of 40 by 40 pixels: a white square of 20 by 20 pixels inside a black frame
  10 pixels wide.
\<close>

definition framed_card :: image where
  "framed_card =
     \<lparr> width = 40, height = 40,
       pixels = (\<lambda>x y. if 10 \<le> x \<and> x < 30 \<and> 10 \<le> y \<and> y < 30
                       then (255, 255, 255, 255) else (0, 0, 0, 255)) \<rparr>"

subsection \<open>The zones are well-formed boxes and the classifier never raises\<close>

lemma min_zone_height_pos: "1 \<le> min_zone_height w"
  by (simp add: min_zone_height_def)

lemma top_zone_box_ok:
  "\<exists>y1. top_zone_box img w = (0, 0, int (width img), y1) \<and> 1 \<le> y1"
  using min_zone_height_pos [of w] by (simp add: top_zone_box_def Let_def)

lemma middle_zone_box_ok:
  "\<exists>y0 y1. middle_zone_box img w = (0, y0, int (width img), y1) \<and> 0 \<le> y0 \<and> y0 < y1"
  using min_zone_height_pos [of w] by (auto simp: middle_zone_box_def Let_def)

lemma crop_dims:
  assumes "x0 \<le> x1" "y0 \<le> y1"
  shows "\<exists>c. crop img (x0, y0, x1, y1) = Inr c \<and> int (width c) = x1 - x0 \<and> int (height c) = y1 - y0"
  using assms by (simp add: crop_def)

lemma zones_exist:
  "\<exists>tz mz. crop img (top_zone_box img w) = Inr tz \<and> crop img (middle_zone_box img w) = Inr mz"
proof -
  obtain y1 where t: "top_zone_box img w = (0, 0, int (width img), y1)" "1 \<le> y1"
    using top_zone_box_ok by blast
  obtain m0 m1 where m: "middle_zone_box img w = (0, m0, int (width img), m1)" "0 \<le> m0" "m0 < m1"
    using middle_zone_box_ok by blast
  show ?thesis using crop_dims [of 0 "int (width img)" 0 y1 img] crop_dims [of 0 "int (width img)" m0 m1 img] t m
    by auto
qed

text \<open>
  C2. For every image, threshold and edge width the classifier raises nothing; it answers
  \<open>borderless\<close> when the image is less than 20 pixels high, and otherwise \<open>standard\<close> when
  the top zone and the middle zone both pass the border check, \<open>extended_art\<close> when only the
  top zone passes, and \<open>borderless\<close> when the top zone fails, whatever the middle zone does.
\<close>

theorem determine_card_type_table:
  "\<exists>top_zone_img middle_zone_img top_has_lr_border middle_has_lr_border.
     crop img (top_zone_box img edge_width) = Inr top_zone_img \<and>
     crop img (middle_zone_box img edge_width) = Inr middle_zone_img \<and>
     check_strip_for_solid_lr_border top_zone_img edge_width threshold = Inr top_has_lr_border \<and>
     check_strip_for_solid_lr_border middle_zone_img edge_width threshold
       = Inr middle_has_lr_border \<and>
     determine_card_type img threshold edge_width =
       Inr (if height img < 20 then borderless
            else if top_has_lr_border \<and> middle_has_lr_border then standard
            else if top_has_lr_border then extended_art
            else borderless)"
proof -
  obtain tz mz where z: "crop img (top_zone_box img edge_width) = Inr tz"
      "crop img (middle_zone_box img edge_width) = Inr mz"
    using zones_exist by blast
  obtain t where t: "check_strip_for_solid_lr_border tz edge_width threshold = Inr t"
    using check_strip_char by blast
  obtain m where m: "check_strip_for_solid_lr_border mz edge_width threshold = Inr m"
    using check_strip_char by blast
  have "determine_card_type img threshold edge_width =
       Inr (if height img < 20 then borderless
            else if t \<and> m then standard
            else if t then extended_art
            else borderless)"
    by (simp add: determine_card_type_def z t m)
  with z t m show ?thesis by blast
qed

theorem determine_card_type_table_witness:
  "determine_card_type framed_card 50 10 = Inr standard"
proof -
  have "determine_card_type framed_card 50 10 = Inr standard"
    by code_simp
  with determine_card_type_table [of framed_card 10 50] show ?thesis
    by simp
qed

text \<open>
  C7 as stated fails: the minimum zone height grows with the edge width, and a zone that is
  taller than the image cannot lie inside it. The code pulls the top of the zone up to row
  0 at most and crops past the bottom edge. For the 40 pixel high card and an edge width of
  100 the zone is rows 0 to 50.
\<close>

theorem middle_zone_out_of_bounds_counterexample:
  "20 \<le> height framed_card \<and> (0::int) < 100 \<and>
   middle_zone_box framed_card 100 = (0, 0, 40, 50) \<and>
   \<not> (50::int) \<le> int (height framed_card)"
  by (simp add: framed_card_def middle_zone_box_def min_zone_height_def)

text \<open>
  C7, amended. For every image at least 20 pixels high and every positive edge width whose
  minimum zone height \<open>max 1 (edge_width div 2)\<close> does not exceed the image height (as the
  configured width of 10 never does), the crop rectangle of the middle zone spans the full
  width, is not empty and lies within the image: when the 50 to 60 percent zone is raised
  to the minimum height, its top is pulled up so that it ends at the last row at most.
\<close>

theorem middle_zone_in_bounds:
  assumes "20 \<le> height img" "0 < w" "min_zone_height w \<le> int (height img)"
  shows "\<exists>y0 y1. middle_zone_box img w = (0, y0, int (width img), y1)
          \<and> 0 \<le> y0 \<and> y0 < y1 \<and> y1 \<le> int (height img)"
  using assms min_zone_height_pos [of w] by (auto simp: middle_zone_box_def Let_def)

theorem middle_zone_in_bounds_witness:
  "\<exists>y0 y1. middle_zone_box framed_card 10 = (0, y0, int (width framed_card), y1)
     \<and> 0 \<le> y0 \<and> y0 < y1 \<and> y1 \<le> int (height framed_card)"
proof -
  have "20 \<le> height framed_card" "(0::int) < 10"
       "min_zone_height 10 \<le> int (height framed_card)"
    by (simp_all add: framed_card_def min_zone_height_def)
  then show ?thesis by (rule middle_zone_in_bounds)
qed

section \<open>Content Extent Detector\<close>

subsection \<open>\<^verbatim>\<open>get_content_extents_at_row\<close> (lines 103-139)\<close>

text \<open>
  Both scans of the row have the same shape: walk the given columns, and leave with the
  first column whose pixel is content; a scan that finds none keeps the value the variable
  had before the loop (\<open>-1\<close> for \<^verbatim>\<open>content_start_x\<close>, \<^verbatim>\<open>content_start_x\<close> for
  \<^verbatim>\<open>content_end_x\<close>).
\<close>

fun first_content_x :: "image \<Rightarrow> int \<Rightarrow> int \<Rightarrow> int \<Rightarrow> int list \<Rightarrow> error + int" where
  "first_content_x img y_row threshold before [] = Inr before"
| "first_content_x img y_row threshold before (x # xs) =
     (case getpixel img x y_row of
        Inl e \<Rightarrow> Inl e
      | Inr p \<Rightarrow> if is_content p threshold then Inr x
                 else first_content_x img y_row threshold before xs)"

definition get_content_extents_at_row ::
  "image \<Rightarrow> int \<Rightarrow> int \<Rightarrow> error + (int option \<times> int option)" where
  "get_content_extents_at_row img y_row threshold =
     (let w = int (width img) in
      case first_content_x img y_row threshold (- 1) [0 .. w - 1] of
        Inl e \<Rightarrow> Inl e
      | Inr content_start_x \<Rightarrow>
          if content_start_x = - 1 then Inr (None, None)
          else
            case first_content_x img y_row threshold content_start_x
                   (rev [content_start_x .. w - 1]) of
              Inl e \<Rightarrow> Inl e
            | Inr content_end_x \<Rightarrow> Inr (Some content_start_x, Some content_end_x))"

text \<open>The pixel at column \<open>x\<close> of row \<open>y\<close> is content.\<close>

definition content_at :: "image \<Rightarrow> int \<Rightarrow> int \<Rightarrow> int \<Rightarrow> bool" where
  "content_at img threshold x y = is_content (pixels img (nat x) (nat y)) threshold"

subsection \<open>\<^verbatim>\<open>get_content_bounding_box\<close> (lines 64-101)\<close>

text \<open>
  The pixels of the mode \<open>L\<close> image \<^verbatim>\<open>temp_l_image_full\<close>, which has the size of the source
  image: 0 where nothing was written, 255 where the loops marked a content pixel.
\<close>

type_synonym l_pixels = "nat \<Rightarrow> nat \<Rightarrow> int"

text \<open>
  The inner loop \<^verbatim>\<open>for x_f in range(image_width)\<close>, threading the mask and the flag
  \<^verbatim>\<open>has_any_content_pixel\<close>; then the outer loop over the rows.
\<close>

fun mark_row ::
  "image \<Rightarrow> int \<Rightarrow> nat \<Rightarrow> nat list \<Rightarrow> l_pixels \<times> bool \<Rightarrow> error + l_pixels \<times> bool" where
  "mark_row img threshold y_f [] st = Inr st"
| "mark_row img threshold y_f (x_f # xs) (dest, has_any_content_pixel) =
     (case getpixel img (int x_f) (int y_f) of
        Inl e \<Rightarrow> Inl e
      | Inr p \<Rightarrow>
          if is_content p threshold
          then mark_row img threshold y_f xs (dest(x_f := (dest x_f)(y_f := 255)), True)
          else mark_row img threshold y_f xs (dest, has_any_content_pixel))"

fun mark_rows ::
  "image \<Rightarrow> int \<Rightarrow> nat list \<Rightarrow> l_pixels \<times> bool \<Rightarrow> error + l_pixels \<times> bool" where
  "mark_rows img threshold [] st = Inr st"
| "mark_rows img threshold (y_f # ys) st =
     (case mark_row img threshold y_f [0..<width img] st of
        Inl e \<Rightarrow> Inl e
      | Inr st' \<Rightarrow> mark_rows img threshold ys st')"

text \<open>
  Pillow's \<^verbatim>\<open>Image.getbbox()\<close>, from its documentation: the bounding box of the non-zero
  region as (left, upper, right, lower), right and lower one past the last non-zero column
  and row, or None when the image is empty of non-zero pixels.
\<close>

definition getbbox :: "nat \<Rightarrow> nat \<Rightarrow> l_pixels \<Rightarrow> (int \<times> int \<times> int \<times> int) option" where
  "getbbox w h px =
     (let cols = filter (\<lambda>x. list_ex (\<lambda>y. px x y \<noteq> 0) [0..<h]) [0..<w];
          rows = filter (\<lambda>y. list_ex (\<lambda>x. px x y \<noteq> 0) [0..<w]) [0..<h]
      in if cols = [] \<or> rows = [] then None
         else Some (int (hd cols), int (hd rows), int (last cols) + 1, int (last rows) + 1))"

definition get_content_bounding_box ::
  "image \<Rightarrow> int \<Rightarrow> error + (int \<times> int \<times> int \<times> int) option" where
  "get_content_bounding_box img threshold =
     (if width img = 0 \<or> height img = 0 then Inr None
      else
        case mark_rows img threshold [0..<height img] (\<lambda>x y. 0, False) of
          Inl e \<Rightarrow> Inl e
        | Inr (dest, has_any_content_pixel) \<Rightarrow>
            if \<not> has_any_content_pixel then Inr None
            else Inr (getbbox (width img) (height img) dest))"

text \<open>What the marking loops hand to \<open>getbbox\<close>.\<close>

definition content_mask :: "image \<Rightarrow> int \<Rightarrow> l_pixels" where
  "content_mask img threshold =
     (\<lambda>x y. if y < height img \<and> x < width img \<and> is_content (pixels img x y) threshold
             then 255 else 0)"

subsection \<open>What the scans and the marking loops compute\<close>

lemma first_content_x_find:
  assumes "\<forall>x \<in> set xs. 0 \<le> x \<and> x < int (width img)" "0 \<le> y" "y < int (height img)"
  shows "first_content_x img y th d xs =
         Inr (case List.find (\<lambda>x. content_at img th x y) xs of None \<Rightarrow> d | Some x \<Rightarrow> x)"
  using assms by (induction xs) (simp_all add: getpixel_inside content_at_def)

lemma find_sorted_least:
  "sorted xs \<Longrightarrow> List.find P xs = Some x \<Longrightarrow> z \<in> set xs \<Longrightarrow> z < x \<Longrightarrow> \<not> P z"
  by (induction xs) (auto split: if_splits)

lemma find_rev_sorted_greatest:
  "sorted (rev xs) \<Longrightarrow> List.find P xs = Some x \<Longrightarrow> z \<in> set xs \<Longrightarrow> x < z \<Longrightarrow> \<not> P z"
  by (induction xs) (auto simp: sorted_append split: if_splits)

lemma find_Some_member: "List.find P xs = Some x \<Longrightarrow> x \<in> set xs \<and> P x"
  by (induction xs) (auto split: if_splits)

lemma get_content_extents_at_row_char:
  assumes y: "0 \<le> y" "y < int (height img)"
  shows "if \<exists>x. 0 \<le> x \<and> x < int (width img) \<and> content_at img th x y
         then \<exists>s e. get_content_extents_at_row img y th = Inr (Some s, Some e) \<and>
                0 \<le> s \<and> s \<le> e \<and> e < int (width img) \<and>
                content_at img th s y \<and> content_at img th e y \<and>
                (\<forall>x. 0 \<le> x \<and> x < s \<longrightarrow> \<not> content_at img th x y) \<and>
                (\<forall>x. e < x \<and> x < int (width img) \<longrightarrow> \<not> content_at img th x y)
         else get_content_extents_at_row img y th = Inr (None, None)"
proof -
  let ?W = "int (width img)"
  let ?P = "\<lambda>x. content_at img th x y"
  have scan1: "first_content_x img y th (- 1) [0 .. ?W - 1] =
               Inr (case List.find ?P [0 .. ?W - 1] of None \<Rightarrow> - 1 | Some x \<Rightarrow> x)"
    using y by (intro first_content_x_find) auto
  show ?thesis
  proof (cases "List.find ?P [0 .. ?W - 1]")
    case None
    then have no: "\<not> (\<exists>x. 0 \<le> x \<and> x < ?W \<and> ?P x)"
      by (auto simp: find_None_iff)
    have "get_content_extents_at_row img y th = Inr (None, None)"
      by (simp add: get_content_extents_at_row_def scan1 None)
    with no show ?thesis by simp
  next
    case (Some s)
    from find_Some_member [OF Some] have s: "0 \<le> s" "s < ?W" "?P s" by auto
    have left: "\<forall>x. 0 \<le> x \<and> x < s \<longrightarrow> \<not> ?P x"
    proof (intro allI impI)
      fix x assume "0 \<le> x \<and> x < s"
      then have "x \<in> set [0 .. ?W - 1]" "x < s" using s by auto
      then show "\<not> ?P x" using find_sorted_least [OF _ Some] by simp
    qed
    have scan2: "first_content_x img y th s (rev [s .. ?W - 1]) =
               Inr (case List.find ?P (rev [s .. ?W - 1]) of None \<Rightarrow> s | Some x \<Rightarrow> x)"
      using y s by (intro first_content_x_find) auto
    have "s \<in> set (rev [s .. ?W - 1])" using s by simp
    with s(3) have "List.find ?P (rev [s .. ?W - 1]) \<noteq> None"
      by (auto simp: find_None_iff)
    then obtain e where e: "List.find ?P (rev [s .. ?W - 1]) = Some e" by auto
    from find_Some_member [OF e] have e': "s \<le> e" "e < ?W" "?P e" by auto
    have right: "\<forall>x. e < x \<and> x < ?W \<longrightarrow> \<not> ?P x"
    proof (intro allI impI)
      fix x assume "e < x \<and> x < ?W"
      then have "x \<in> set (rev [s .. ?W - 1])" "e < x" using e' by auto
      then show "\<not> ?P x" using find_rev_sorted_greatest [OF _ e] by simp
    qed
    have "get_content_extents_at_row img y th = Inr (Some s, Some e)"
      using s by (simp add: get_content_extents_at_row_def scan1 Some scan2 e)
    with s e' left right show ?thesis by auto
  qed
qed

text \<open>
  C10. On every row inside the image the row scan raises nothing and answers either
  \<open>(None, None)\<close> or a pair \<open>(start_x, end_x)\<close> with
  \<open>0 \<le> start_x \<le> end_x < width\<close>, where the pixels at both columns are content and every
  column left of \<open>start_x\<close> is background on that row. So the caller's test
  \<^verbatim>\<open>cx_at_row_start <= cx_at_row_end\<close> never rejects an answer that is not None.
\<close>

theorem get_content_extents_at_row_ordered:
  assumes "0 \<le> y_row" "y_row < int (height img)"
  shows "get_content_extents_at_row img y_row threshold = Inr (None, None) \<or>
         (\<exists>start_x end_x.
            get_content_extents_at_row img y_row threshold = Inr (Some start_x, Some end_x) \<and>
            0 \<le> start_x \<and> start_x \<le> end_x \<and> end_x < int (width img) \<and>
            content_at img threshold start_x y_row \<and>
            content_at img threshold end_x y_row \<and>
            (\<forall>x. 0 \<le> x \<and> x < start_x \<longrightarrow> \<not> content_at img threshold x y_row))"
proof (cases "\<exists>x. 0 \<le> x \<and> x < int (width img) \<and> content_at img threshold x y_row")
  case True
  with get_content_extents_at_row_char [OF assms, of threshold]
  obtain s e where "get_content_extents_at_row img y_row threshold = Inr (Some s, Some e)"
    "0 \<le> s" "s \<le> e" "e < int (width img)"
    "content_at img threshold s y_row" "content_at img threshold e y_row"
    "\<forall>x. 0 \<le> x \<and> x < s \<longrightarrow> \<not> content_at img threshold x y_row"
    by (simp only: if_True) blast
  then show ?thesis by blast
next
  case False
  with get_content_extents_at_row_char [OF assms, of threshold]
  have "get_content_extents_at_row img y_row threshold = Inr (None, None)"
    by (simp only: if_False)
  then show ?thesis by simp
qed

theorem get_content_extents_at_row_ordered_witness:
  "get_content_extents_at_row framed_strip 0 50 = Inr (Some 2, Some 3)"
proof -
  have v: "get_content_extents_at_row framed_strip 0 50 = Inr (Some 2, Some 3)"
    by code_simp
  have "(0::int) \<le> 0" "0 < int (height framed_strip)"
    by (simp_all add: framed_strip_def)
  from get_content_extents_at_row_ordered [OF this, of 50] show ?thesis
    by (simp only: v)
qed

lemma mark_row_char:
  assumes "\<forall>x \<in> set xs. x < width img" "y < height img"
  shows "mark_row img th y xs (m, has) =
         Inr ((\<lambda>x' y'. if y' = y \<and> x' \<in> set xs \<and> is_content (pixels img x' y) th
                        then 255 else m x' y'),
              has \<or> (\<exists>x \<in> set xs. is_content (pixels img x y) th))"
  using assms
proof (induction xs arbitrary: m has)
  case Nil
  then show ?case by simp
next
  case (Cons x xs)
  then have gp: "getpixel img (int x) (int y) = Inr (pixels img x y)"
    by (simp add: getpixel_inside)
  show ?case
  proof (cases "is_content (pixels img x y) th")
    case True
    have "mark_row img th y (x # xs) (m, has) =
          mark_row img th y xs (m(x := (m x)(y := 255)), True)"
      by (simp add: gp True)
    also have "\<dots> = Inr ((\<lambda>x' y'. if y' = y \<and> x' \<in> set xs \<and> is_content (pixels img x' y) th
                        then 255 else (m(x := (m x)(y := 255))) x' y'),
              True \<or> (\<exists>x \<in> set xs. is_content (pixels img x y) th))"
      using Cons.prems by (intro Cons.IH) auto
    finally show ?thesis using True by (auto simp: fun_eq_iff)
  next
    case False
    have "mark_row img th y (x # xs) (m, has) = mark_row img th y xs (m, has)"
      by (simp add: gp False)
    also have "\<dots> = Inr ((\<lambda>x' y'. if y' = y \<and> x' \<in> set xs \<and> is_content (pixels img x' y) th
                        then 255 else m x' y'),
              has \<or> (\<exists>x \<in> set xs. is_content (pixels img x y) th))"
      using Cons.prems by (intro Cons.IH) auto
    finally show ?thesis using False by (auto simp: fun_eq_iff)
  qed
qed

lemma mark_rows_char:
  assumes "\<forall>y \<in> set ys. y < height img"
  shows "mark_rows img th ys (m, has) =
         Inr ((\<lambda>x' y'. if y' \<in> set ys \<and> x' < width img \<and> is_content (pixels img x' y') th
                        then 255 else m x' y'),
              has \<or> (\<exists>y \<in> set ys. \<exists>x < width img. is_content (pixels img x y) th))"
  using assms
proof (induction ys arbitrary: m has)
  case Nil
  then show ?case by simp
next
  case (Cons y ys)
  have row: "mark_row img th y [0..<width img] (m, has) =
         Inr ((\<lambda>x' y'. if y' = y \<and> x' \<in> set [0..<width img] \<and> is_content (pixels img x' y) th
                        then 255 else m x' y'),
              has \<or> (\<exists>x \<in> set [0..<width img]. is_content (pixels img x y) th))"
    using Cons.prems by (intro mark_row_char) auto
  have rest: "\<And>m' has'. mark_rows img th ys (m', has') =
         Inr ((\<lambda>x' y'. if y' \<in> set ys \<and> x' < width img \<and> is_content (pixels img x' y') th
                        then 255 else m' x' y'),
              has' \<or> (\<exists>y \<in> set ys. \<exists>x < width img. is_content (pixels img x y) th))"
    using Cons.prems by (intro Cons.IH) auto
  show ?case
    unfolding mark_rows.simps row sum.case rest
    by (auto simp: fun_eq_iff)
qed
lemma filter_upt_hd:
  assumes "filter P [0..<n] \<noteq> []"
  shows "P (hd (filter P [0..<n])) \<and> hd (filter P [0..<n]) < n \<and>
         (\<forall>x < n. P x \<longrightarrow> hd (filter P [0..<n]) \<le> x)"
proof -
  let ?xs = "filter P [0..<n]"
  have "hd ?xs \<in> set ?xs" using assms by (rule hd_in_set)
  then have mem: "P (hd ?xs)" "hd ?xs < n" by simp_all
  have srt: "sorted ?xs" by (simp add: sorted_wrt_filter)
  have "\<forall>x \<in> set ?xs. hd ?xs \<le> x"
    using srt assms by (cases ?xs) auto
  then have "\<forall>x < n. P x \<longrightarrow> hd ?xs \<le> x" by simp
  with mem show ?thesis by blast
qed

lemma sorted_le_last: "sorted xs \<Longrightarrow> x \<in> set xs \<Longrightarrow> x \<le> last xs"
  by (induction xs) (auto)

lemma filter_upt_last:
  assumes "filter P [0..<n] \<noteq> []"
  shows "P (last (filter P [0..<n])) \<and> last (filter P [0..<n]) < n \<and>
         (\<forall>x < n. P x \<longrightarrow> x \<le> last (filter P [0..<n]))"
proof -
  let ?xs = "filter P [0..<n]"
  have "last ?xs \<in> set ?xs" using assms by (rule last_in_set)
  then have mem: "P (last ?xs)" "last ?xs < n" by simp_all
  have srt: "sorted ?xs" by (simp add: sorted_wrt_filter)
  have "\<forall>x \<in> set ?xs. x \<le> last ?xs"
    using srt sorted_le_last by blast
  then have "\<forall>x < n. P x \<longrightarrow> x \<le> last ?xs" by simp
  with mem show ?thesis by blast
qed

lemma getbbox_None_iff:
  "getbbox w h px = None \<longleftrightarrow> \<not> (\<exists>x y. x < w \<and> y < h \<and> px x y \<noteq> 0)"
proof -
  have "getbbox w h px = None \<longleftrightarrow>
        (\<forall>x < w. \<forall>y < h. px x y = 0) \<or> (\<forall>y < h. \<forall>x < w. px x y = 0)"
    by (simp add: getbbox_def Let_def filter_empty_conv list_ex_iff Ball_def Bex_def)
  then show ?thesis by blast
qed

lemma getbbox_SomeD:
  assumes "getbbox w h px = Some (x0, y0, x1, y1)"
  shows "0 \<le> x0 \<and> x0 < x1 \<and> x1 \<le> int w \<and> 0 \<le> y0 \<and> y0 < y1 \<and> y1 \<le> int h"
    and "\<forall>x y. x < w \<and> y < h \<and> px x y \<noteq> 0
           \<longrightarrow> x0 \<le> int x \<and> int x < x1 \<and> y0 \<le> int y \<and> int y < y1"
    and "\<exists>y < h. px (nat x0) y \<noteq> 0" and "\<exists>y < h. px (nat (x1 - 1)) y \<noteq> 0"
    and "\<exists>x < w. px x (nat y0) \<noteq> 0" and "\<exists>x < w. px x (nat (y1 - 1)) \<noteq> 0"
proof -
  let ?C = "\<lambda>x. list_ex (\<lambda>y. px x y \<noteq> 0) [0..<h]"
  let ?R = "\<lambda>y. list_ex (\<lambda>x. px x y \<noteq> 0) [0..<w]"
  let ?cols = "filter ?C [0..<w]" and ?rows = "filter ?R [0..<h]"
  from assms have ne: "?cols \<noteq> []" "?rows \<noteq> []"
    and eq: "x0 = int (hd ?cols)" "y0 = int (hd ?rows)"
            "x1 = int (last ?cols) + 1" "y1 = int (last ?rows) + 1"
    by (auto simp: getbbox_def Let_def split: if_splits)
  note ch = filter_upt_hd [OF ne(1)] and cl = filter_upt_last [OF ne(1)]
    and rh = filter_upt_hd [OF ne(2)] and rl = filter_upt_last [OF ne(2)]
  have C: "\<And>x. ?C x \<longleftrightarrow> (\<exists>y < h. px x y \<noteq> 0)" by (auto simp: list_ex_iff)
  have R: "\<And>y. ?R y \<longleftrightarrow> (\<exists>x < w. px x y \<noteq> 0)" by (auto simp: list_ex_iff)
  have hl: "hd ?cols \<le> last ?cols" "hd ?rows \<le> last ?rows"
    using ch cl rh rl by auto
  show "0 \<le> x0 \<and> x0 < x1 \<and> x1 \<le> int w \<and> 0 \<le> y0 \<and> y0 < y1 \<and> y1 \<le> int h"
    using ch cl rh rl hl unfolding eq by auto
  show "\<forall>x y. x < w \<and> y < h \<and> px x y \<noteq> 0
           \<longrightarrow> x0 \<le> int x \<and> int x < x1 \<and> y0 \<le> int y \<and> int y < y1"
  proof (intro allI impI)
    fix x y assume a: "x < w \<and> y < h \<and> px x y \<noteq> 0"
    then have "?C x" "?R y" unfolding C R by auto
    with a have "hd ?cols \<le> x" "x \<le> last ?cols" "hd ?rows \<le> y" "y \<le> last ?rows"
      using ch cl rh rl by auto
    then show "x0 \<le> int x \<and> int x < x1 \<and> y0 \<le> int y \<and> int y < y1"
      unfolding eq by auto
  qed
  show "\<exists>y < h. px (nat x0) y \<noteq> 0" using ch C unfolding eq by simp
  show "\<exists>y < h. px (nat (x1 - 1)) y \<noteq> 0" using cl C unfolding eq by simp
  show "\<exists>x < w. px x (nat y0) \<noteq> 0" using rh R unfolding eq by simp
  show "\<exists>x < w. px x (nat (y1 - 1)) \<noteq> 0" using rl R unfolding eq by simp
qed

lemma get_content_bounding_box_char:
  "get_content_bounding_box img th =
   Inr (if \<exists>x y. x < width img \<and> y < height img \<and> is_content (pixels img x y) th
        then getbbox (width img) (height img) (content_mask img th) else None)"
proof (cases "width img = 0 \<or> height img = 0")
  case True
  then show ?thesis by (auto simp: get_content_bounding_box_def)
next
  case False
  have "mark_rows img th [0..<height img] (\<lambda>x y. 0, False) =
        Inr ((\<lambda>x' y'. if y' \<in> set [0..<height img] \<and> x' < width img
                          \<and> is_content (pixels img x' y') th
                        then 255 else 0),
              False \<or> (\<exists>y \<in> set [0..<height img]. \<exists>x < width img.
                          is_content (pixels img x y) th))"
    by (intro mark_rows_char) auto
  also have "\<dots> = Inr (content_mask img th,
                  \<exists>x y. x < width img \<and> y < height img \<and> is_content (pixels img x y) th)"
  proof -
    have "(\<lambda>x' y'. if y' \<in> set [0..<height img] \<and> x' < width img
                          \<and> is_content (pixels img x' y') th
                        then 255 else 0) = content_mask img th"
      by (simp add: content_mask_def fun_eq_iff)
    moreover have "(False \<or> (\<exists>y \<in> set [0..<height img]. \<exists>x < width img.
                          is_content (pixels img x y) th))
        \<longleftrightarrow> (\<exists>x y. x < width img \<and> y < height img \<and> is_content (pixels img x y) th)"
      by (simp add: Bex_def) blast
    ultimately show ?thesis by (simp only:)
  qed
  finally have m: "mark_rows img th [0..<height img] (\<lambda>x y. 0, False) =
        Inr (content_mask img th,
             \<exists>x y. x < width img \<and> y < height img \<and> is_content (pixels img x y) th)" .
  show ?thesis
  proof (cases "\<exists>x y. x < width img \<and> y < height img \<and> is_content (pixels img x y) th")
    case True
    have "get_content_bounding_box img th
          = Inr (getbbox (width img) (height img) (content_mask img th))"
      using False True unfolding get_content_bounding_box_def m by (simp only: if_True if_False sum.case prod.case simp_thms)
    with True show ?thesis by (simp only: if_True)
  next
    case F: False
    have "get_content_bounding_box img th = Inr None"
      using False F unfolding get_content_bounding_box_def m by (simp only: if_True if_False sum.case prod.case simp_thms)
    with F show ?thesis by (simp only: if_False)
  qed
qed

text \<open>
  C3. The bounding box search raises nothing. It answers None exactly when the image has no
  content pixel, which covers every image of zero width or zero height. When it answers a
  box \<open>(x0, y0, x1, y1)\<close>, the box is not empty and lies in the image, every content pixel
  lies inside it (so every pixel outside is background), and its first and last column and
  its first and last row each hold a content pixel.
\<close>

theorem get_content_bounding_box_tight:
  "\<exists>r. get_content_bounding_box img threshold = Inr r \<and>
     (r = None \<longleftrightarrow>
        \<not> (\<exists>x y. x < width img \<and> y < height img \<and> is_content (pixels img x y) threshold)) \<and>
     (\<forall>x0 y0 x1 y1. r = Some (x0, y0, x1, y1) \<longrightarrow>
        0 \<le> x0 \<and> x0 < x1 \<and> x1 \<le> int (width img) \<and>
        0 \<le> y0 \<and> y0 < y1 \<and> y1 \<le> int (height img) \<and>
        (\<forall>x y. x < width img \<and> y < height img \<and> is_content (pixels img x y) threshold
           \<longrightarrow> x0 \<le> int x \<and> int x < x1 \<and> y0 \<le> int y \<and> int y < y1) \<and>
        (\<exists>y < height img. is_content (pixels img (nat x0) y) threshold) \<and>
        (\<exists>y < height img. is_content (pixels img (nat (x1 - 1)) y) threshold) \<and>
        (\<exists>x < width img. is_content (pixels img x (nat y0)) threshold) \<and>
        (\<exists>x < width img. is_content (pixels img x (nat (y1 - 1))) threshold))"
proof (cases "\<exists>x y. x < width img \<and> y < height img \<and> is_content (pixels img x y) threshold")
  case False
  then have "get_content_bounding_box img threshold = Inr None"
    unfolding get_content_bounding_box_char by (simp only: if_False)
  with False show ?thesis by simp
next
  case True
  let ?m = "content_mask img threshold"
  have nz: "\<And>x y. x < width img \<and> y < height img \<Longrightarrow>
              ?m x y \<noteq> 0 \<longleftrightarrow> is_content (pixels img x y) threshold"
    by (simp add: content_mask_def)
  have r: "get_content_bounding_box img threshold
           = Inr (getbbox (width img) (height img) ?m)"
    unfolding get_content_bounding_box_char using True by (simp only: if_True)
  have "getbbox (width img) (height img) ?m \<noteq> None"
    using True nz unfolding getbbox_None_iff by blast
  then obtain x0 y0 x1 y1 where b: "getbbox (width img) (height img) ?m = Some (x0, y0, x1, y1)"
    by (cases "getbbox (width img) (height img) ?m") auto
  note D = getbbox_SomeD [OF b]
  have inside: "\<forall>x y. x < width img \<and> y < height img \<and> is_content (pixels img x y) threshold
           \<longrightarrow> x0 \<le> int x \<and> int x < x1 \<and> y0 \<le> int y \<and> int y < y1"
    using D(2) nz by blast
  have xb: "nat x0 < width img" "nat (x1 - 1) < width img"
    and yb: "nat y0 < height img" "nat (y1 - 1) < height img"
    using D(1) by auto
  have e1: "\<exists>y < height img. is_content (pixels img (nat x0) y) threshold"
    using D(3) nz xb by blast
  have e2: "\<exists>y < height img. is_content (pixels img (nat (x1 - 1)) y) threshold"
    using D(4) nz xb by blast
  have e3: "\<exists>x < width img. is_content (pixels img x (nat y0)) threshold"
    using D(5) nz yb by blast
  have e4: "\<exists>x < width img. is_content (pixels img x (nat (y1 - 1))) threshold"
    using D(6) nz yb by blast
  show ?thesis
    unfolding r b using True D(1) inside e1 e2 e3 e4 by simp
qed

theorem get_content_bounding_box_tight_witness:
  "get_content_bounding_box framed_strip 50 = Inr (Some (2, 0, 4, 2))"
proof -
  have v: "get_content_bounding_box framed_strip 50 = Inr (Some (2, 0, 4, 2))"
    by code_simp
  show ?thesis
    using get_content_bounding_box_tight [of framed_strip 50] by (simp only: v)
qed

section \<open>Configuration (lines 7-49)\<close>

text \<open>
  The code computes with Python floats. The model computes with exact rationals: the
  millimetre constants, the scale factors and the quotients that are rounded. The two agree
  wherever the exact quotient is not within the rounding error of a double of a number
  ending in .5; every value evaluated below is far from that.
\<close>

text \<open>Python 3's \<^verbatim>\<open>round\<close>: to the nearest integer, a tie to the even one.\<close>

definition py_round :: "rat \<Rightarrow> int" where
  "py_round x =
     (let f = \<lfloor>x\<rfloor>; d = x - of_int f
      in if d < 1 / 2 then f
         else if d > 1 / 2 then f + 1
         else if even f then f else f + 1)"

definition CARD_WIDTH_MM :: rat where "CARD_WIDTH_MM = 635 / 10"
definition CARD_HEIGHT_MM :: rat where "CARD_HEIGHT_MM = 889 / 10"
definition DPI :: rat where "DPI = 1200"
definition MM_TO_IN :: rat where "MM_TO_IN = 1 / (254 / 10)"

definition DESIRED_BORDER_TOP_MM :: rat where "DESIRED_BORDER_TOP_MM = 3"
definition DESIRED_BORDER_LEFT_MM :: rat where "DESIRED_BORDER_LEFT_MM = 3"
definition DESIRED_BORDER_RIGHT_MM :: rat where "DESIRED_BORDER_RIGHT_MM = 3"
definition DESIRED_BORDER_BOTTOM_MM :: rat where "DESIRED_BORDER_BOTTOM_MM = 41 / 10"
definition EXTENDED_ART_SCAN_OFFSET_Y_MM :: rat where "EXTENDED_ART_SCAN_OFFSET_Y_MM = 3"

definition FULL_ART_BOTTOM_CROP_PX :: int where "FULL_ART_BOTTOM_CROP_PX = 80"
definition BLACK_BORDER_THRESHOLD :: int where "BLACK_BORDER_THRESHOLD = 50"
definition EDGE_ZONE_CHECK_WIDTH_PX :: int where "EDGE_ZONE_CHECK_WIDTH_PX = 10"
definition FORCE_STANDARD_FRAME_TYPE :: bool where "FORCE_STANDARD_FRAME_TYPE = False"

definition CARD_WIDTH_PX :: int where
  "CARD_WIDTH_PX = py_round ((CARD_WIDTH_MM * MM_TO_IN) * DPI)"
definition CARD_HEIGHT_PX :: int where
  "CARD_HEIGHT_PX = py_round ((CARD_HEIGHT_MM * MM_TO_IN) * DPI)"
definition BORDER_TOP_PX :: int where
  "BORDER_TOP_PX = py_round ((DESIRED_BORDER_TOP_MM * MM_TO_IN) * DPI)"
definition BORDER_LEFT_PX :: int where
  "BORDER_LEFT_PX = py_round ((DESIRED_BORDER_LEFT_MM * MM_TO_IN) * DPI)"
definition BORDER_RIGHT_PX :: int where
  "BORDER_RIGHT_PX = py_round ((DESIRED_BORDER_RIGHT_MM * MM_TO_IN) * DPI)"
definition BORDER_BOTTOM_PX :: int where
  "BORDER_BOTTOM_PX = py_round ((DESIRED_BORDER_BOTTOM_MM * MM_TO_IN) * DPI)"
definition EXTENDED_ART_SCAN_OFFSET_Y_PX :: int where
  "EXTENDED_ART_SCAN_OFFSET_Y_PX = py_round (EXTENDED_ART_SCAN_OFFSET_Y_MM * MM_TO_IN * DPI)"

lemma config_px:
  "CARD_WIDTH_PX = 3000" "CARD_HEIGHT_PX = 4200"
  "BORDER_TOP_PX = 142" "BORDER_LEFT_PX = 142" "BORDER_RIGHT_PX = 142" "BORDER_BOTTOM_PX = 194"
  "EXTENDED_ART_SCAN_OFFSET_Y_PX = 142"
  by code_simp+


section \<open>Card Renderer and Border-Normalizing Cropper: \<^verbatim>\<open>resize_card\<close> (lines 230-386)\<close>

text \<open>
  \<^verbatim>\<open>Image.open(image_path)\<close> followed by \<^verbatim>\<open>convert("RGBA")\<close>: the file is missing, or it
  cannot be decoded, or there is an RGBA image.
\<close>

datatype load_result = FileNotFound | DecodeError | Decoded image

text \<open>\<^verbatim>\<open>Image.new("RGBA", (w, h), colour)\<close>.\<close>

definition new_image :: "int \<Rightarrow> int \<Rightarrow> pixel \<Rightarrow> image" where
  "new_image w h colour = \<lparr> width = nat w, height = nat h, pixels = (\<lambda>x y. colour) \<rparr>"

text \<open>
  \<^verbatim>\<open>img.resize((w, h), Image.Resampling.LANCZOS)\<close>: a size below 1 raises ValueError;
  otherwise the result has exactly the requested size. The resampling filter, which gives
  the colour of each pixel of the result, is a parameter.
\<close>

type_synonym resampler = "image \<Rightarrow> nat \<Rightarrow> nat \<Rightarrow> nat \<Rightarrow> nat \<Rightarrow> pixel"

definition resize :: "resampler \<Rightarrow> image \<Rightarrow> int \<times> int \<Rightarrow> error + image" where
  "resize lanczos img new_size =
     (case new_size of (w, h) \<Rightarrow>
        if w < 1 \<or> h < 1 then Inl ValueError
        else Inr \<lparr> width = nat w, height = nat h, pixels = lanczos img (nat w) (nat h) \<rparr>)"

text \<open>
  Lines 326-333 and 353-359: resize unless the image already has the target size, in which
  case it is copied.
\<close>

definition resize_to_target :: "resampler \<Rightarrow> image \<Rightarrow> int \<Rightarrow> int \<Rightarrow> error + image" where
  "resize_to_target lanczos img target_final_card_width_px target_final_card_height_px =
     (if (int (width img), int (height img))
           \<noteq> (target_final_card_width_px, target_final_card_height_px)
      then resize lanczos img (target_final_card_width_px, target_final_card_height_px)
      else Inr img)"

subsection \<open>Effective content extents (lines 250-283)\<close>

text \<open>
  The extents start as the overall content box, or as the full image when there is none.
  For an extended-art card with an overall box, one row is sampled below the top of the
  content; when the row is inside the image and the scan finds content on it, the
  horizontal extent becomes what the scan returned.
\<close>

definition effective_extents ::
  "image \<Rightarrow> card_type \<Rightarrow> (int \<times> int \<times> int \<times> int) option
     \<Rightarrow> error + (int \<times> int \<times> int \<times> int)" where
  "effective_extents original_img card_type overall_content_bbox =
     (let original_w = int (width original_img);
          original_h = int (height original_img);
          (effective_cx0, effective_cy0, effective_cx1, effective_cy1) =
             (case overall_content_bbox of
                Some bbox \<Rightarrow> bbox
              | None \<Rightarrow> (0, 0, original_w, original_h))
      in
        if card_type = extended_art then
          (case overall_content_bbox of
             Some bbox \<Rightarrow>
               let content_top_y_for_scan = effective_cy0;
                   vertical_sample_y = content_top_y_for_scan + EXTENDED_ART_SCAN_OFFSET_Y_PX
               in
                 if 0 \<le> vertical_sample_y \<and> vertical_sample_y < original_h then
                   (case get_content_extents_at_row original_img vertical_sample_y
                           BLACK_BORDER_THRESHOLD of
                      Inl e \<Rightarrow> Inl e
                    | Inr (Some cx_at_row_start, Some cx_at_row_end) \<Rightarrow>
                        if cx_at_row_start \<le> cx_at_row_end
                        then Inr (cx_at_row_start, effective_cy0, cx_at_row_end, effective_cy1)
                        else Inr (effective_cx0, effective_cy0, effective_cx1, effective_cy1)
                    | Inr _ \<Rightarrow>
                        Inr (effective_cx0, effective_cy0, effective_cx1, effective_cy1))
                 else Inr (effective_cx0, effective_cy0, effective_cx1, effective_cy1)
           | None \<Rightarrow> Inr (effective_cx0, effective_cy0, effective_cx1, effective_cy1))
        else Inr (effective_cx0, effective_cy0, effective_cx1, effective_cy1))"

subsection \<open>The proportional crop (lines 292-324)\<close>

text \<open>
  \<^verbatim>\<open>final_artwork / current_content if current_content != 0 else 0\<close>, and
  \<^verbatim>\<open>round(BORDER / scale) if abs(scale) > 1e-6 else 0\<close>.
\<close>

definition content_scale :: "int \<Rightarrow> int \<Rightarrow> rat" where
  "content_scale final_artwork current_content_orig =
     (if current_content_orig \<noteq> 0
      then of_int final_artwork / of_int current_content_orig else 0)"

definition keep_orig_border_px :: "int \<Rightarrow> rat \<Rightarrow> int" where
  "keep_orig_border_px border_px scale =
     (if \<bar>scale\<bar> > 1 / 1000000 then py_round (of_int border_px / scale) else 0)"

text \<open>The rectangle \<^verbatim>\<open>(crop_x0, crop_y0, crop_x1, crop_y1)\<close> of lines 296-310.\<close>

definition proportional_crop_box ::
  "int \<times> int \<times> int \<times> int \<Rightarrow> int \<Rightarrow> int \<Rightarrow> int \<Rightarrow> int \<Rightarrow> int \<times> int \<times> int \<times> int" where
  "proportional_crop_box extents original_w original_h
       target_final_card_width_px target_final_card_height_px =
     (case extents of (effective_cx0, effective_cy0, effective_cx1, effective_cy1) \<Rightarrow>
        let current_content_width_orig = effective_cx1 - effective_cx0;
            current_content_height_orig = effective_cy1 - effective_cy0;
            final_artwork_width =
              max 1 (target_final_card_width_px - BORDER_LEFT_PX - BORDER_RIGHT_PX);
            final_artwork_height =
              max 1 (target_final_card_height_px - BORDER_TOP_PX - BORDER_BOTTOM_PX);
            scale_w = content_scale final_artwork_width current_content_width_orig;
            scale_h = content_scale final_artwork_height current_content_height_orig;
            keep_orig_border_left_px = keep_orig_border_px BORDER_LEFT_PX scale_w;
            keep_orig_border_top_px = keep_orig_border_px BORDER_TOP_PX scale_h;
            keep_orig_border_right_px = keep_orig_border_px BORDER_RIGHT_PX scale_w;
            keep_orig_border_bottom_px = keep_orig_border_px BORDER_BOTTOM_PX scale_h
        in (max 0 (effective_cx0 - keep_orig_border_left_px),
            max 0 (effective_cy0 - keep_orig_border_top_px),
            min original_w (effective_cx1 + keep_orig_border_right_px),
            min original_h (effective_cy1 + keep_orig_border_bottom_px)))"

text \<open>
  \<^verbatim>\<open>img_to_final_resize\<close> for a standard or extended-art card: the proportional crop, or
  the effective content box when that crop is empty, or the whole image.
\<close>

definition border_adjusted_crop ::
  "image \<Rightarrow> int \<times> int \<times> int \<times> int \<Rightarrow> int \<Rightarrow> int \<Rightarrow> error + image" where
  "border_adjusted_crop original_img extents
       target_final_card_width_px target_final_card_height_px =
     (case extents of (effective_cx0, effective_cy0, effective_cx1, effective_cy1) \<Rightarrow>
        let current_content_width_orig = effective_cx1 - effective_cx0;
            current_content_height_orig = effective_cy1 - effective_cy0
        in
          if current_content_width_orig > 0 \<and> current_content_height_orig > 0 then
            (case proportional_crop_box extents
                    (int (width original_img)) (int (height original_img))
                    target_final_card_width_px target_final_card_height_px of
               (crop_x0, crop_y0, crop_x1, crop_y1) \<Rightarrow>
                 if crop_x1 > crop_x0 \<and> crop_y1 > crop_y0
                 then crop original_img (crop_x0, crop_y0, crop_x1, crop_y1)
                 else if effective_cx0 \<ge> 0 \<and> effective_cy0 \<ge> 0
                         \<and> effective_cx1 > effective_cx0 \<and> effective_cy1 > effective_cy0
                 then crop original_img
                        (effective_cx0, effective_cy0, effective_cx1, effective_cy1)
                 else Inr original_img)
          else Inr original_img)"

subsection \<open>The full-art crop (lines 338-351)\<close>

text \<open>
  \<^verbatim>\<open>img_for_full_art_processing\<close> before the resize, with the configured bottom trim as a
  parameter.
\<close>

definition full_art_crop :: "int \<Rightarrow> image \<Rightarrow> error + image" where
  "full_art_crop bottom_crop_px original_img =
     (let original_w = int (width original_img);
          original_h = int (height original_img)
      in
        if bottom_crop_px > 0 then
          if bottom_crop_px \<ge> original_h then
            (if original_h > 0 then crop original_img (0, 0, original_w, 1)
             else Inr (new_image (max 1 original_w) 1 (0, 0, 0, 0)))
          else if original_w > 0 then
            (let crop_bottom_y = max 1 (original_h - bottom_crop_px)
             in crop original_img (0, 0, original_w, crop_bottom_y))
          else if original_w = 0 then Inr (new_image 1 1 (0, 0, 0, 0))
          else Inr original_img
        else Inr original_img)"

subsection \<open>The whole pipeline\<close>

text \<open>
  The body of the \<^verbatim>\<open>try\<close> block after the image is loaded. Both enhancement factors are
  1.0, so neither enhancement branch is taken and the image that was sized is returned.
\<close>

definition resize_card_body :: "resampler \<Rightarrow> image \<Rightarrow> int \<Rightarrow> int \<Rightarrow> error + image" where
  "resize_card_body lanczos original_img
       target_final_card_width_px target_final_card_height_px =
     (case (if FORCE_STANDARD_FRAME_TYPE then Inr standard
            else determine_card_type original_img BLACK_BORDER_THRESHOLD
                   EDGE_ZONE_CHECK_WIDTH_PX) of
        Inl e \<Rightarrow> Inl e
      | Inr card_type \<Rightarrow>
      case get_content_bounding_box original_img BLACK_BORDER_THRESHOLD of
        Inl e \<Rightarrow> Inl e
      | Inr overall_content_bbox \<Rightarrow>
      case effective_extents original_img card_type overall_content_bbox of
        Inl e \<Rightarrow> Inl e
      | Inr extents \<Rightarrow>
      case (if card_type = standard \<or> card_type = extended_art then
              (case border_adjusted_crop original_img extents
                      target_final_card_width_px target_final_card_height_px of
                 Inl e \<Rightarrow> Inl e
               | Inr img_to_final_resize \<Rightarrow>
                   map_sum id Some
                     (resize_to_target lanczos img_to_final_resize
                        target_final_card_width_px target_final_card_height_px))
            else if card_type = borderless then
              (case full_art_crop FULL_ART_BOTTOM_CROP_PX original_img of
                 Inl e \<Rightarrow> Inl e
               | Inr img_for_full_art_processing \<Rightarrow>
                   map_sum id Some
                     (resize_to_target lanczos img_for_full_art_processing
                        target_final_card_width_px target_final_card_height_px))
            else Inr None) of
        Inl e \<Rightarrow> Inl e
      | Inr None \<Rightarrow>
          resize lanczos original_img
            (target_final_card_width_px, target_final_card_height_px)
      | Inr (Some image_ready_for_enhancement) \<Rightarrow> Inr image_ready_for_enhancement)"

text \<open>
  \<^verbatim>\<open>resize_card\<close>: a missing file and every other exception, from loading or from the
  body, end in None.
\<close>

definition resize_card :: "resampler \<Rightarrow> load_result \<Rightarrow> int \<Rightarrow> int \<Rightarrow> image option" where
  "resize_card lanczos loaded target_final_card_width_px target_final_card_height_px =
     (case loaded of
        FileNotFound \<Rightarrow> None
      | DecodeError \<Rightarrow> None
      | Decoded original_img \<Rightarrow>
          (case resize_card_body lanczos original_img
                  target_final_card_width_px target_final_card_height_px of
             Inl e \<Rightarrow> None
           | Inr final_card \<Rightarrow> Some final_card))"

text \<open>The call of line 397, which the sheet composer makes for every file.\<close>

definition render_card :: "resampler \<Rightarrow> load_result \<Rightarrow> image option" where
  "render_card lanczos loaded = resize_card lanczos loaded CARD_WIDTH_PX CARD_HEIGHT_PX"




subsection \<open>Example images\<close>

text \<open>An image without width, 100 rows high.\<close>

definition zero_width_image :: image where
  "zero_width_image = \<lparr> width = 0, height = 100, pixels = (\<lambda>x y. (0, 0, 0, 0)) \<rparr>"

text \<open>
  A strip 6 pixels wide and 150 rows high whose two middle columns are white on every row.
\<close>

definition tall_strip :: image where
  "tall_strip =
     \<lparr> width = 6, height = 150,
       pixels = (\<lambda>x y. if 2 \<le> x \<and> x < 4 then (255, 255, 255, 255) else (0, 0, 0, 255)) \<rparr>"

text \<open>A resampling filter that paints every pixel transparent black.\<close>

definition blank_filter :: resampler where
  "blank_filter = (\<lambda>img w h x y. (0, 0, 0, 0))"

subsection \<open>No stage of the pipeline raises\<close>

lemma determine_card_type_total: "\<exists>ct. determine_card_type img th w = Inr ct"
proof -
  obtain tz mz where z: "crop img (top_zone_box img w) = Inr tz"
      "crop img (middle_zone_box img w) = Inr mz"
    using zones_exist by blast
  obtain t where t: "check_strip_for_solid_lr_border tz w th = Inr t"
    using check_strip_char by blast
  obtain m where m: "check_strip_for_solid_lr_border mz w th = Inr m"
    using check_strip_char by blast
  show ?thesis by (simp add: determine_card_type_def z t m)
qed

lemma full_art_crop_char:
  assumes "0 < T"
  shows "\<exists>c. full_art_crop T img = Inr c \<and>
           (int (width c), int (height c)) =
             (if int (height img) \<le> T
              then (if 0 < height img then (int (width img), 1) else (max 1 (int (width img)), 1))
              else if 0 < width img then (int (width img), int (height img) - T)
              else (1, 1))"
proof -
  let ?W = "int (width img)" and ?H = "int (height img)"
  consider (a) "?H \<le> T" "0 < height img" | (b) "?H \<le> T" "height img = 0"
    | (c) "T < ?H" "0 < width img" | (d) "T < ?H" "width img = 0" by linarith
  then show ?thesis
  proof cases
    case a
    obtain c where "crop img (0, 0, ?W, 1) = Inr c" "int (width c) = ?W - 0" "int (height c) = 1 - 0"
      using crop_dims [of 0 ?W 0 1 img] by auto
    with a assms show ?thesis by (simp add: full_art_crop_def Let_def)
  next
    case b
    with assms show ?thesis by (simp add: full_art_crop_def Let_def new_image_def)
  next
    case c
    obtain k where "crop img (0, 0, ?W, ?H - T) = Inr k" "int (width k) = ?W - 0"
        "int (height k) = (?H - T) - 0"
      using crop_dims [of 0 ?W 0 "?H - T" img] c by auto
    with c assms show ?thesis by (simp add: full_art_crop_def Let_def max_def)
  next
    case d
    with assms show ?thesis by (simp add: full_art_crop_def Let_def new_image_def)
  qed
qed

text \<open>
  C5 as stated fails on an image without width, for which the code has a branch of its
  own (line 347): the image of 0 by 100 pixels is classified borderless, and with a trim of
  80 the code replaces it by one transparent pixel, 1 by 1, not 0 by 20.
\<close>

theorem full_art_crop_zero_width_counterexample:
  "determine_card_type zero_width_image BLACK_BORDER_THRESHOLD EDGE_ZONE_CHECK_WIDTH_PX
     = Inr borderless \<and>
   0 < height zero_width_image \<and> (0::int) < 80 \<and> 80 < int (height zero_width_image) \<and>
   map_sum id height (full_art_crop 80 zero_width_image) = Inr 1 \<and>
   map_sum id width (full_art_crop 80 zero_width_image) = Inr 1 \<and>
   int (height zero_width_image) - 80 \<noteq> 1 \<and> width zero_width_image \<noteq> 1"
  by code_simp

text \<open>
  C5, amended. For every image of height \<open>H > 0\<close> and every bottom trim \<open>T > 0\<close> the
  full-art crop raises nothing; when \<open>T < H\<close> and the image has a positive width, the crop
  has height exactly \<open>H - T\<close> and the full original width; when \<open>T \<ge> H\<close>, the crop has
  height exactly 1 and the original width.
\<close>

theorem full_art_crop_height:
  assumes "0 < height img" "0 < T"
  shows "(T < int (height img) \<and> 0 < width img \<longrightarrow>
            (\<exists>c. full_art_crop T img = Inr c \<and>
                  int (height c) = int (height img) - T \<and> width c = width img)) \<and>
         (int (height img) \<le> T \<longrightarrow>
            (\<exists>c. full_art_crop T img = Inr c \<and> height c = 1 \<and> width c = width img))"
proof -
  from full_art_crop_char [OF assms(2), of img]
  obtain c where c: "full_art_crop T img = Inr c"
    "(int (width c), int (height c)) =
             (if int (height img) \<le> T
              then (if 0 < height img then (int (width img), 1) else (max 1 (int (width img)), 1))
              else if 0 < width img then (int (width img), int (height img) - T)
              else (1, 1))"
    by blast
  show ?thesis using c assms(1) by (auto split: if_splits)
qed

theorem full_art_crop_height_witness:
  "(\<exists>c. full_art_crop 80 framed_card = Inr c \<and> height c = 1 \<and> width c = width framed_card) \<and>
   (\<exists>c. full_art_crop 15 framed_card = Inr c \<and>
      int (height c) = int (height framed_card) - 15 \<and> width c = width framed_card)"
proof -
  have h: "0 < height framed_card" "0 < width framed_card"
       "int (height framed_card) \<le> 80" "15 < int (height framed_card)"
    by (simp_all add: framed_card_def)
  from full_art_crop_height [OF h(1), of 80] full_art_crop_height [OF h(1), of 15] h
  show ?thesis by simp
qed

lemma effective_extents_char:
  "\<exists>cx0 cx1.
     effective_extents img extended_art (Some (x0, y0, x1, y1)) = Inr (cx0, y0, cx1, y1) \<and>
     (if 0 \<le> y0 + EXTENDED_ART_SCAN_OFFSET_Y_PX
         \<and> y0 + EXTENDED_ART_SCAN_OFFSET_Y_PX < int (height img)
         \<and> (\<exists>x. 0 \<le> x \<and> x < int (width img)
                \<and> content_at img BLACK_BORDER_THRESHOLD x (y0 + EXTENDED_ART_SCAN_OFFSET_Y_PX))
      then get_content_extents_at_row img (y0 + EXTENDED_ART_SCAN_OFFSET_Y_PX)
             BLACK_BORDER_THRESHOLD = Inr (Some cx0, Some cx1) \<and>
           0 \<le> cx0 \<and> cx0 \<le> cx1 \<and> cx1 < int (width img) \<and>
           content_at img BLACK_BORDER_THRESHOLD cx0 (y0 + EXTENDED_ART_SCAN_OFFSET_Y_PX) \<and>
           content_at img BLACK_BORDER_THRESHOLD cx1 (y0 + EXTENDED_ART_SCAN_OFFSET_Y_PX) \<and>
           (\<forall>x. 0 \<le> x \<and> x < cx0 \<longrightarrow>
              \<not> content_at img BLACK_BORDER_THRESHOLD x (y0 + EXTENDED_ART_SCAN_OFFSET_Y_PX)) \<and>
           (\<forall>x. cx1 < x \<and> x < int (width img) \<longrightarrow>
              \<not> content_at img BLACK_BORDER_THRESHOLD x (y0 + EXTENDED_ART_SCAN_OFFSET_Y_PX))
      else cx0 = x0 \<and> cx1 = x1)"
proof -
  let ?y = "y0 + EXTENDED_ART_SCAN_OFFSET_Y_PX"
  let ?th = BLACK_BORDER_THRESHOLD
  let ?has = "\<exists>x. 0 \<le> x \<and> x < int (width img) \<and> content_at img ?th x ?y"
  show ?thesis
  proof (cases "0 \<le> ?y \<and> ?y < int (height img)")
    case False
    then have "effective_extents img extended_art (Some (x0, y0, x1, y1)) = Inr (x0, y0, x1, y1)"
      by (auto simp: effective_extents_def Let_def)
    with False show ?thesis by auto
  next
    case inb: True
    then have y: "0 \<le> ?y" "?y < int (height img)" by auto
    note ch = get_content_extents_at_row_char [OF y, of ?th]
    show ?thesis
    proof (cases ?has)
      case False
      with ch have "get_content_extents_at_row img ?y ?th = Inr (None, None)"
        by (simp only: if_False)
      then have "effective_extents img extended_art (Some (x0, y0, x1, y1))
                 = Inr (x0, y0, x1, y1)"
        using inb by (simp add: effective_extents_def Let_def)
      with False show ?thesis by auto
    next
      case True
      with ch obtain s e where se:
        "get_content_extents_at_row img ?y ?th = Inr (Some s, Some e)"
        "0 \<le> s" "s \<le> e" "e < int (width img)"
        "content_at img ?th s ?y" "content_at img ?th e ?y"
        "\<forall>x. 0 \<le> x \<and> x < s \<longrightarrow> \<not> content_at img ?th x ?y"
        "\<forall>x. e < x \<and> x < int (width img) \<longrightarrow> \<not> content_at img ?th x ?y"
        by (simp only: if_True) blast
      have "effective_extents img extended_art (Some (x0, y0, x1, y1)) = Inr (s, y0, e, y1)"
        using inb se(1,3) by (simp add: effective_extents_def Let_def)
      with True inb se show ?thesis by auto
    qed
  qed
qed

lemma effective_extents_other:
  "ct \<noteq> extended_art \<or> bbox = None \<Longrightarrow>
   effective_extents img ct bbox =
     Inr (case bbox of Some b \<Rightarrow> b | None \<Rightarrow> (0, 0, int (width img), int (height img)))"
  by (auto simp: effective_extents_def Let_def split: option.splits prod.splits)

lemma effective_extents_total: "\<exists>ext. effective_extents img ct bbox = Inr ext"
proof (cases "ct \<noteq> extended_art \<or> bbox = None")
  case True
  then show ?thesis using effective_extents_other by blast
next
  case False
  then obtain x0 y0 x1 y1 where "ct = extended_art" "bbox = Some (x0, y0, x1, y1)"
    by (cases bbox) auto
  then show ?thesis using effective_extents_char [of img x0 y0 x1 y1] by blast
qed

lemma border_adjusted_crop_total: "\<exists>c. border_adjusted_crop img ext tw th = Inr c"
proof -
  obtain cx0 cy0 cx1 cy1 where e: "ext = (cx0, cy0, cx1, cy1)" by (cases ext) auto
  obtain a b c d where p: "proportional_crop_box ext (int (width img)) (int (height img)) tw th
       = (a, b, c, d)"
    by (cases "proportional_crop_box ext (int (width img)) (int (height img)) tw th") auto
  have c1: "a < c \<and> b < d \<Longrightarrow> \<exists>k. crop img (a, b, c, d) = Inr k"
    using crop_dims [of a c b d img] by auto
  have c2: "cx0 < cx1 \<and> cy0 < cy1 \<Longrightarrow> \<exists>k. crop img (cx0, cy0, cx1, cy1) = Inr k"
    using crop_dims [of cx0 cx1 cy0 cy1 img] by auto
  show ?thesis
    unfolding border_adjusted_crop_def e prod.case Let_def p [unfolded e]
    using c1 c2 by auto
qed

lemma resize_to_target_dims:
  assumes "0 < tw" "0 < th"
  shows "\<exists>c. resize_to_target lanczos img tw th = Inr c \<and> int (width c) = tw \<and> int (height c) = th"
  using assms by (auto simp: resize_to_target_def resize_def)

lemma resize_card_body_dims:
  assumes "0 < tw" "0 < th"
  shows "\<exists>c. resize_card_body lanczos img tw th = Inr c \<and> int (width c) = tw \<and> int (height c) = th"
proof -
  obtain ct where ct: "determine_card_type img BLACK_BORDER_THRESHOLD EDGE_ZONE_CHECK_WIDTH_PX
       = Inr ct"
    using determine_card_type_total by blast
  obtain bbox where bb: "get_content_bounding_box img BLACK_BORDER_THRESHOLD = Inr bbox"
    using get_content_bounding_box_char by blast
  obtain ext where ex: "effective_extents img ct bbox = Inr ext"
    using effective_extents_total by blast
  obtain bc where bc: "border_adjusted_crop img ext tw th = Inr bc"
    using border_adjusted_crop_total by blast
  obtain fc where fc: "full_art_crop FULL_ART_BOTTOM_CROP_PX img = Inr fc"
    using full_art_crop_char [of FULL_ART_BOTTOM_CROP_PX img]
    by (auto simp: FULL_ART_BOTTOM_CROP_PX_def)
  obtain r1 where r1: "resize_to_target lanczos bc tw th = Inr r1"
      "int (width r1) = tw" "int (height r1) = th"
    using resize_to_target_dims [OF assms] by blast
  obtain r2 where r2: "resize_to_target lanczos fc tw th = Inr r2"
      "int (width r2) = tw" "int (height r2) = th"
    using resize_to_target_dims [OF assms] by blast
  show ?thesis
    using ct bb ex bc fc r1 r2
    by (cases ct) (simp_all add: resize_card_body_def FORCE_STANDARD_FRAME_TYPE_def)
qed

lemma card_px_pos: "0 < CARD_WIDTH_PX" "0 < CARD_HEIGHT_PX"
  by (simp_all add: config_px)

text \<open>
  C6. \<^verbatim>\<open>resize_card\<close>, called with the card size as the sheet composer calls it, answers
  None when the file is missing or cannot be decoded, and only then: for every decoded
  image no stage raises, and the answer is an image of exactly \<open>CARD_WIDTH_PX\<close> by
  \<open>CARD_HEIGHT_PX\<close> pixels.
\<close>

theorem render_card_result:
  "case loaded of
     Decoded original_img \<Rightarrow>
       \<exists>final_card. render_card lanczos loaded = Some final_card \<and>
         int (width final_card) = CARD_WIDTH_PX \<and> int (height final_card) = CARD_HEIGHT_PX
   | _ \<Rightarrow> render_card lanczos loaded = None"
proof (cases loaded)
  case (Decoded img)
  from resize_card_body_dims [OF card_px_pos, of lanczos img]
  obtain c where "resize_card_body lanczos img CARD_WIDTH_PX CARD_HEIGHT_PX = Inr c"
    "int (width c) = CARD_WIDTH_PX" "int (height c) = CARD_HEIGHT_PX" by blast
  with Decoded show ?thesis by (simp add: render_card_def resize_card_def)
qed (simp_all add: render_card_def resize_card_def)

theorem render_card_result_witness:
  "map_option (\<lambda>c. (width c, height c)) (render_card blank_filter (Decoded framed_strip))
     = Some (3000, 4200) \<and>
   render_card blank_filter FileNotFound = None \<and>
   render_card blank_filter DecodeError = None"
proof -
  have v: "map_option (\<lambda>c. (width c, height c))
             (render_card blank_filter (Decoded framed_strip)) = Some (3000, 4200)"
    by code_simp
  from render_card_result [where loaded = FileNotFound and lanczos = blank_filter]
       render_card_result [where loaded = DecodeError and lanczos = blank_filter]
       render_card_result [where loaded = "Decoded framed_strip" and lanczos = blank_filter] v
  show ?thesis by simp
qed

text \<open>
  C4. For an extended-art card with an overall content box \<open>(x0, y0, x1, y1)\<close> the
  effective extents are computed without an error; their top and bottom are \<open>y0\<close> and
  \<open>y1\<close>. When the row \<open>y0 + EXTENDED_ART_SCAN_OFFSET_Y_PX\<close> lies inside the image and holds
  a content pixel, the left and right extents are what the row scan returns there: the
  leftmost and the rightmost content column of that row. When the row is outside the image
  or holds no content pixel, the left and right extents stay \<open>x0\<close> and \<open>x1\<close>.
\<close>

theorem effective_extents_extended_art:
  "\<exists>cx0 cx1.
     effective_extents img extended_art (Some (x0, y0, x1, y1)) = Inr (cx0, y0, cx1, y1) \<and>
     (if 0 \<le> y0 + EXTENDED_ART_SCAN_OFFSET_Y_PX
         \<and> y0 + EXTENDED_ART_SCAN_OFFSET_Y_PX < int (height img)
         \<and> (\<exists>x. 0 \<le> x \<and> x < int (width img)
                \<and> content_at img BLACK_BORDER_THRESHOLD x (y0 + EXTENDED_ART_SCAN_OFFSET_Y_PX))
      then get_content_extents_at_row img (y0 + EXTENDED_ART_SCAN_OFFSET_Y_PX)
             BLACK_BORDER_THRESHOLD = Inr (Some cx0, Some cx1) \<and>
           0 \<le> cx0 \<and> cx0 \<le> cx1 \<and> cx1 < int (width img) \<and>
           content_at img BLACK_BORDER_THRESHOLD cx0 (y0 + EXTENDED_ART_SCAN_OFFSET_Y_PX) \<and>
           content_at img BLACK_BORDER_THRESHOLD cx1 (y0 + EXTENDED_ART_SCAN_OFFSET_Y_PX) \<and>
           (\<forall>x. 0 \<le> x \<and> x < cx0 \<longrightarrow>
              \<not> content_at img BLACK_BORDER_THRESHOLD x (y0 + EXTENDED_ART_SCAN_OFFSET_Y_PX)) \<and>
           (\<forall>x. cx1 < x \<and> x < int (width img) \<longrightarrow>
              \<not> content_at img BLACK_BORDER_THRESHOLD x (y0 + EXTENDED_ART_SCAN_OFFSET_Y_PX))
      else cx0 = x0 \<and> cx1 = x1)"
  by (rule effective_extents_char)

theorem effective_extents_extended_art_witness:
  "effective_extents tall_strip extended_art (Some (2, 0, 4, 150)) = Inr (2, 0, 3, 150) \<and>
   effective_extents framed_card extended_art (Some (10, 10, 30, 30)) = Inr (10, 10, 30, 30)"
proof -
  have v: "effective_extents tall_strip extended_art (Some (2, 0, 4, 150)) = Inr (2, 0, 3, 150)"
          "effective_extents framed_card extended_art (Some (10, 10, 30, 30))
             = Inr (10, 10, 30, 30)"
    by code_simp+
  show ?thesis
    using effective_extents_extended_art [of tall_strip 2 0 4 150]
          effective_extents_extended_art [of framed_card 10 10 30 30]
    by (simp only: v)
qed


subsection \<open>Border accuracy of the proportional crop\<close>















end
